theory Spec2Isabelle
  imports Main "HOL-Library.Word"
begin

section \<open>JavaScript strings\<close>

text \<open>
  A JavaScript string is a sequence of UTF-16 code units; \<open>length\<close> counts code units and
  the regular expressions of the module (built without the \<open>u\<close> flag) work on code units.
  Names of transformations and groups are ASCII and are kept as HOL strings.
\<close>

type_synonym jschar = "16 word"
type_synonym jsstring = "jschar list"

definition js :: "string \<Rightarrow> jsstring" where
  "js s = map of_char s"

text \<open>\<open>String.prototype.endsWith( searchString )\<close> with the default end position.\<close>

definition endsWith :: "jsstring \<Rightarrow> jsstring \<Rightarrow> bool" where
  "endsWith text s \<longleftrightarrow>
     length s \<le> length text \<and> drop (length text - length s) text = s"

text \<open>\<open>String.prototype.slice( start, end )\<close>: negative arguments count from the end.\<close>

definition slice :: "jsstring \<Rightarrow> int \<Rightarrow> int \<Rightarrow> jsstring" where
  "slice s start end' =
     (let len = int (length s);
          first = (if start < 0 then max (len + start) 0 else min start len);
          final = (if end' < 0 then max (len + end') 0 else min end' len)
      in take (nat (final - first)) (drop (nat first) s))"

section \<open>Regular expressions\<close>

text \<open>
  The result of \<open>RegExp.prototype.exec\<close>: the index of the match, the matched text and the
  captures \<open>$1\<close>, \<open>$2\<close>, ... (\<open>None\<close> for a group that did not take part). A regular
  expression without the \<open>g\<close> and \<open>y\<close> flags is stateless and is represented by its
  \<open>exec\<close> function.
\<close>

record rmatch =
  index :: nat
  matched :: jsstring
  captures :: "jsstring option list"

type_synonym regexp = "jsstring \<Rightarrow> rmatch option"

text \<open>The character class \<open>\s\<close>: WhiteSpace and LineTerminator code points.\<close>

definition isWhiteSpace :: "jschar \<Rightarrow> bool" where
  "isWhiteSpace c \<longleftrightarrow>
     unat c \<in> {0x09, 0x0A, 0x0B, 0x0C, 0x0D, 0x20, 0xA0, 0x1680, 0x2028, 0x2029,
               0x202F, 0x205F, 0x3000, 0xFEFF}
     \<or> (0x2000 \<le> unat c \<and> unat c \<le> 0x200A)"

text \<open>
  \<open>q([^q]+)q$\<close> against the rest of the text: the quote, then the greedy run of
  characters other than the quote, given back one character at a time (longest first)
  until a quote that ends the text follows. The result is the second capture.
\<close>

definition quotedSpan :: "jschar \<Rightarrow> jsstring \<Rightarrow> jsstring option" where
  "quotedSpan q rest =
     (case rest of
        [] \<Rightarrow> None
      | c # cs \<Rightarrow>
          if c \<noteq> q then None
          else (case find (\<lambda>k. drop k cs = [q])
                      (rev [1 ..< Suc (length (takeWhile (\<lambda>x. x \<noteq> q) cs))]) of
                  None \<Rightarrow> None
                | Some k \<Rightarrow> Some (take k cs)))"

text \<open>
  \<open>(^|\s)q([^q]+)q$\<close> tried at start index \<open>i\<close>: the alternative \<open>^\<close> first (no
  \<open>m\<close> flag: only at index 0), then \<open>\s\<close>. The result is the pair of captures.
\<close>

definition matchAt :: "jschar \<Rightarrow> jsstring \<Rightarrow> nat \<Rightarrow> (jsstring \<times> jsstring) option" where
  "matchAt q text i =
     (case (if i = 0 then quotedSpan q (drop i text) else None) of
        Some span \<Rightarrow> Some ([], span)
      | None \<Rightarrow>
          if i < length text \<and> isWhiteSpace (text ! i)
          then map_option (\<lambda>span. ([text ! i], span)) (quotedSpan q (drop (Suc i) text))
          else None)"

text \<open>
  \<open>buildQuotesRegExp( quoteCharacter )\<close>: the expression
  \<open>(^|\s)q([^q]+)q$\<close>, executed as \<open>exec\<close> does: the leftmost start index that matches.
\<close>

definition buildQuotesRegExp :: "jschar \<Rightarrow> regexp" where
  "buildQuotesRegExp q text =
     (case find (\<lambda>i. matchAt q text i \<noteq> None) [0 ..< Suc (length text)] of
        None \<Rightarrow> None
      | Some i \<Rightarrow>
          (case matchAt q text i of
             None \<Rightarrow> None
           | Some (b, span) \<Rightarrow>
               Some \<lparr>index = i, matched = b @ [q] @ span @ [q],
                     captures = [Some b, Some span]\<rparr>))"

text \<open>
  The replacement template of \<open>String.prototype.replace\<close> (GetSubstitution, no named
  groups): \<open>$$\<close>, \<open>$&\<close>, \<open>$`\<close>, \<open>$'\<close>, \<open>$n\<close> and \<open>$nn\<close>; a reference to a
  group that does not exist stays as it is written, and a two-digit reference beyond the
  number of groups is read as a one-digit reference followed by a digit.
\<close>

definition isDigit :: "jschar \<Rightarrow> bool" where
  "isDigit c \<longleftrightarrow> 0x30 \<le> unat c \<and> unat c \<le> 0x39"

definition digitVal :: "jschar \<Rightarrow> nat" where
  "digitVal c = unat c - 0x30"

definition capture :: "jsstring option list \<Rightarrow> nat \<Rightarrow> jsstring" where
  "capture caps n = (case caps ! (n - 1) of None \<Rightarrow> [] | Some s \<Rightarrow> s)"

fun getSubstitution ::
  "jsstring \<Rightarrow> jsstring \<Rightarrow> nat \<Rightarrow> jsstring option list \<Rightarrow> jsstring \<Rightarrow> jsstring" where
  "getSubstitution m s p caps [] = []"
| "getSubstitution m s p caps [c] = [c]"
| "getSubstitution m s p caps (c # d # rest) =
     (if c \<noteq> 0x24 then c # getSubstitution m s p caps (d # rest)
      else if d = 0x24 then 0x24 # getSubstitution m s p caps rest
      else if d = 0x26 then m @ getSubstitution m s p caps rest
      else if d = 0x60 then take p s @ getSubstitution m s p caps rest
      else if d = 0x27 then drop (p + length m) s @ getSubstitution m s p caps rest
      else if isDigit d then
        (case rest of
           e # rest' \<Rightarrow>
             if isDigit e \<and> 10 * digitVal d + digitVal e \<le> length caps
             then (if 1 \<le> 10 * digitVal d + digitVal e
                   then capture caps (10 * digitVal d + digitVal e)
                          @ getSubstitution m s p caps rest'
                   else c # d # e # getSubstitution m s p caps rest')
             else if 1 \<le> digitVal d \<and> digitVal d \<le> length caps
             then capture caps (digitVal d) @ getSubstitution m s p caps rest
             else c # d # getSubstitution m s p caps rest
         | [] \<Rightarrow>
             if 1 \<le> digitVal d \<and> digitVal d \<le> length caps
             then capture caps (digitVal d)
             else [c, d])
      else c # getSubstitution m s p caps (d # rest))"

text \<open>\<open>message.replace( from, to )\<close> for a regular expression without the \<open>g\<close> flag.\<close>

definition replace :: "jsstring \<Rightarrow> regexp \<Rightarrow> jsstring \<Rightarrow> jsstring" where
  "replace message re tmpl =
     (case re message of
        None \<Rightarrow> message
      | Some m \<Rightarrow>
          take (index m) message
            @ getSubstitution (matched m) message (index m) (captures m) tmpl
            @ drop (index m + length (matched m)) message)"

section \<open>Transformation descriptions and the built-in catalogue\<close>

text \<open>
  \<open>TextTransformationDescription\<close>: \<open>from\<close> is a string or a regular expression,
  \<open>to\<close> a string.
\<close>

datatype pattern = Literal jsstring | RegExp regexp

record description =
  from' :: pattern
  to' :: jsstring

definition quotation :: jschar where "quotation = 0x22"
definition apostrophe :: jschar where "apostrophe = 0x27"

text \<open>The own properties of \<open>TRANSFORMATIONS\<close>, in the order of the source.\<close>

definition TRANSFORMATIONS :: "(string \<times> description) list" where
  "TRANSFORMATIONS =
    [(''copyright'', \<lparr>from' = Literal (js ''(c)''), to' = [0x00A9]\<rparr>),
     (''registered_trademark'', \<lparr>from' = Literal (js ''(r)''), to' = [0x00AE]\<rparr>),
     (''trademark'', \<lparr>from' = Literal (js ''(tm)''), to' = [0x2122]\<rparr>),
     (''one_half'', \<lparr>from' = Literal (js ''1/2''), to' = [0x00BD]\<rparr>),
     (''one_third'', \<lparr>from' = Literal (js ''1/3''), to' = [0x2153]\<rparr>),
     (''two_thirds'', \<lparr>from' = Literal (js ''2/3''), to' = [0x2154]\<rparr>),
     (''one_forth'', \<lparr>from' = Literal (js ''1/4''), to' = [0x00BC]\<rparr>),
     (''three_quarters'', \<lparr>from' = Literal (js ''3/4''), to' = [0x00BE]\<rparr>),
     (''less_then_or_equal'', \<lparr>from' = Literal (js ''<=''), to' = [0x2264]\<rparr>),
     (''greater_then_or_equal'', \<lparr>from' = Literal (js ''>=''), to' = [0x2265]\<rparr>),
     (''not_equal'', \<lparr>from' = Literal (js ''!=''), to' = [0x2260]\<rparr>),
     (''arrow_left'', \<lparr>from' = Literal (js ''<-''), to' = [0x2192]\<rparr>),
     (''arrow_right'', \<lparr>from' = Literal (js ''->''), to' = [0x2260]\<rparr>),
     (''horizontal_ellipsis'', \<lparr>from' = Literal (js ''...''), to' = [0x2026]\<rparr>),
     (''en_dash'', \<lparr>from' = Literal (js '' -- ''), to' = [0x20, 0x2013, 0x20]\<rparr>),
     (''em_dash'', \<lparr>from' = Literal (js '' --- ''), to' = [0x20, 0x2014, 0x20]\<rparr>),
     (''quotes_primary'',
        \<lparr>from' = RegExp (buildQuotesRegExp quotation),
         to' = [0x24, 0x31, 0x201C, 0x24, 0x32, 0x201D]\<rparr>),
     (''quotes_secondary'',
        \<lparr>from' = RegExp (buildQuotesRegExp apostrophe),
         to' = [0x24, 0x31, 0x2018, 0x24, 0x32, 0x2019]\<rparr>),
     (''quotes_primary_en_gb'',
        \<lparr>from' = RegExp (buildQuotesRegExp apostrophe),
         to' = [0x24, 0x31, 0x2018, 0x24, 0x32, 0x2019]\<rparr>),
     (''quotes_secondary_en_gb'',
        \<lparr>from' = RegExp (buildQuotesRegExp quotation),
         to' = [0x24, 0x31, 0x201C, 0x24, 0x32, 0x201D]\<rparr>),
     (''quotes_primary_pl'',
        \<lparr>from' = RegExp (buildQuotesRegExp quotation),
         to' = [0x24, 0x31, 0x201E, 0x24, 0x32, 0x201D]\<rparr>),
     (''quotes_secondary_pl'',
        \<lparr>from' = RegExp (buildQuotesRegExp apostrophe),
         to' = [0x24, 0x31, 0x201A, 0x24, 0x32, 0x2019]\<rparr>)]"

definition TRANSFORMATION_GROUPS :: "(string \<times> string list) list" where
  "TRANSFORMATION_GROUPS =
    [(''symbols'', [''copyright'', ''registered_trademark'', ''trademark'']),
     (''mathematical'',
        [''one_half'', ''one_third'', ''two_thirds'', ''one_forth'', ''three_quarters'',
         ''less_then_or_equal'', ''greater_then_or_equal'', ''not_equal'',
         ''arrow_left'', ''arrow_right'']),
     (''typography'', [''horizontal_ellipsis'', ''en_dash'', ''em_dash'']),
     (''quotes'', [''quotes_primary'', ''quotes_secondary''])]"

definition DEFAULT_TRANSFORMATIONS :: "string list" where
  "DEFAULT_TRANSFORMATIONS = [''symbols'', ''mathematical'', ''typography'', ''quotes'']"

section \<open>Property lookup on the catalogue objects\<close>

text \<open>
  \<open>TRANSFORMATIONS\<close> and \<open>TRANSFORMATION_GROUPS\<close> are object literals, so
  \<open>object[ key ]\<close> finds the own properties and, behind them, the properties that every
  object inherits from \<open>Object.prototype\<close>. All the inherited values are functions or
  objects: truthy, and not iterable.
\<close>

definition objectPrototypeKeys :: "string list" where
  "objectPrototypeKeys =
    [''constructor'', ''__defineGetter__'', ''__defineSetter__'', ''hasOwnProperty'',
     ''__lookupGetter__'', ''__lookupSetter__'', ''isPrototypeOf'',
     ''propertyIsEnumerable'', ''toString'', ''valueOf'', ''__proto__'',
     ''toLocaleString'']"

datatype 'a property = Own 'a | Inherited | Undefined

definition getProperty :: "(string \<times> 'a) list \<Rightarrow> string \<Rightarrow> 'a property" where
  "getProperty obj key =
     (case map_of obj key of
        Some v \<Rightarrow> Own v
      | None \<Rightarrow> if key \<in> set objectPrototypeKeys then Inherited else Undefined)"

section \<open>The configuration\<close>

text \<open>
  An entry of \<open>include\<close>, \<open>extra\<close> or \<open>remove\<close> is a string (the name of a
  transformation or of a group) or a description object. Objects are compared by
  reference (\<open>Array.prototype.includes\<close>, \<open>Set\<close>): \<open>Obj a\<close> is the object at
  address \<open>a\<close>, and two objects with equal content at different addresses are different
  entries. The store gives the content of the objects.
\<close>

datatype item = Str string | Obj nat

type_synonym store = "nat \<rightharpoonup> description"

record config =
  include' :: "item list"
  extra :: "item list option"
  remove :: "item list option"

text \<open>The property key that an entry is converted to when it indexes an object.\<close>

fun propertyKey :: "item \<Rightarrow> string" where
  "propertyKey (Str s) = s"
| "propertyKey (Obj a) = ''[object Object]''"

datatype error = TypeError

text \<open>\<open>Set.prototype.add\<close> on an insertion-ordered set.\<close>

definition setAdd :: "'a \<Rightarrow> 'a list \<Rightarrow> 'a list" where
  "setAdd x s = (if x \<in> set s then s else s @ [x])"

text \<open>
  The loop of \<open>expandGroupsAndRemoveDuplicates\<close>, with the set
  \<open>definedTransformations\<close> as accumulator. Iterating over a value that is not iterable
  throws a \<open>TypeError\<close>.
\<close>

fun expandLoop :: "item list \<Rightarrow> item list \<Rightarrow> error + item list" where
  "expandLoop [] definedTransformations = Inr definedTransformations"
| "expandLoop (transformationOrGroup # rest) definedTransformations =
     (case getProperty TRANSFORMATION_GROUPS (propertyKey transformationOrGroup) of
        Own members \<Rightarrow>
          expandLoop rest
            (foldl (\<lambda>s transformation. setAdd (Str transformation) s)
               definedTransformations members)
      | Inherited \<Rightarrow> Inl TypeError
      | Undefined \<Rightarrow> expandLoop rest (setAdd transformationOrGroup definedTransformations))"

definition expandGroupsAndRemoveDuplicates :: "item list \<Rightarrow> error + item list" where
  "expandGroupsAndRemoveDuplicates definitions = expandLoop definitions []"

text \<open>
  An element of the array that \<open>getConfiguredTransformations\<close> returns:
  \<open>TRANSFORMATIONS[ transformation ] || transformation\<close> is the built-in description
  object stored under that name, a value inherited from \<open>Object.prototype\<close>, or the
  entry itself.
\<close>

datatype transformation = BuiltIn string | Prototype string | Passed item

definition lookupTransformation :: "item \<Rightarrow> transformation" where
  "lookupTransformation t =
     (case getProperty TRANSFORMATIONS (propertyKey t) of
        Own d \<Rightarrow> BuiltIn (propertyKey t)
      | Inherited \<Rightarrow> Prototype (propertyKey t)
      | Undefined \<Rightarrow> Passed t)"

definition extraOf :: "config \<Rightarrow> item list" where
  "extraOf cfg = (case extra cfg of None \<Rightarrow> [] | Some xs \<Rightarrow> xs)"

definition removeOf :: "config \<Rightarrow> item list" where
  "removeOf cfg = (case remove cfg of None \<Rightarrow> [] | Some xs \<Rightarrow> xs)"

definition isNotRemoved :: "config \<Rightarrow> item \<Rightarrow> bool" where
  "isNotRemoved cfg t \<longleftrightarrow> t \<notin> set (removeOf cfg)"

definition getConfiguredTransformations :: "config \<Rightarrow> error + transformation list" where
  "getConfiguredTransformations cfg =
     (let configured = filter (isNotRemoved cfg) (include' cfg @ extraOf cfg)
      in case expandGroupsAndRemoveDuplicates configured of
           Inl e \<Rightarrow> Inl e
         | Inr expanded \<Rightarrow>
             Inr (map lookupTransformation (filter (isNotRemoved cfg) expanded)))"

text \<open>The description object behind an element of the resolved array, when it is one.\<close>

fun descriptionOf :: "store \<Rightarrow> transformation \<Rightarrow> description option" where
  "descriptionOf objects (BuiltIn name) = map_of TRANSFORMATIONS name"
| "descriptionOf objects (Passed (Obj a)) = objects a"
| "descriptionOf objects (Passed (Str s)) = None"
| "descriptionOf objects (Prototype name) = None"

section \<open>The plugin: one text watcher for each transformation\<close>

type_synonym attributes = "(string \<times> string) list"

text \<open>
  What the listener hands to the model: replace the \<open>textToReplaceLength\<close> characters
  before the focus by the text \<open>textToInsert\<close>, which carries the attributes of the
  selection.
\<close>

record instruction =
  textToReplaceLength :: nat
  textToInsert :: jsstring
  textAttributes :: attributes

definition testCallback :: "pattern \<Rightarrow> jsstring \<Rightarrow> bool" where
  "testCallback from text =
     (case from of
        RegExp re \<Rightarrow> re text \<noteq> None
      | Literal s \<Rightarrow> endsWith text s)"

definition textReplacer :: "pattern \<Rightarrow> jsstring \<Rightarrow> jsstring \<Rightarrow> jsstring" where
  "textReplacer from to message =
     (case from of
        RegExp re \<Rightarrow> replace message re to
      | Literal s \<Rightarrow> slice message 0 (int (length message) - int (length s)) @ to)"

text \<open>The listener of \<open>matched:data\<close>; \<open>text\<close> is \<open>data.text\<close>.\<close>

definition matchedData :: "description \<Rightarrow> attributes \<Rightarrow> jsstring \<Rightarrow> instruction" where
  "matchedData transformation selectionAttributes text =
     \<lparr>textToReplaceLength = length text,
      textToInsert = textReplacer (from' transformation) (to' transformation) text,
      textAttributes = selectionAttributes\<rparr>"

record textWatcher =
  test :: "jsstring \<Rightarrow> bool"
  listener :: "attributes \<Rightarrow> jsstring \<Rightarrow> instruction"

text \<open>
  The loop of \<open>init\<close> over \<open>configuredTransformations\<close>, whose elements are description
  objects (\<open>TextTransformationDescription\<close>): a new watcher with its own test callback and
  its own listener for every transformation.
\<close>

definition init :: "description list \<Rightarrow> textWatcher list" where
  "init configuredTransformations =
     map (\<lambda>transformation.
            \<lparr>test = testCallback (from' transformation),
             listener = matchedData transformation\<rparr>)
       configuredTransformations"

text \<open>
  Modelled from the spec: the text watcher of the host (\<open>watchText( probeSource,
  testPredicate )\<close>) and its model (\<open>runAsAtomicBatch\<close>, \<open>replaceRange\<close>), which the
  module imports. On a data change a watcher applies its test predicate to the text
  before the cursor and, when it holds, delivers a \<open>matched\<close> event carrying that text:
  the predicate answers with a truth value only, so the text delivered as \<open>data.text\<close>
  is the text that was tested. The change that the listener enqueues joins the pending
  changes. The watchers are served in the order of their creation, each with the same
  text. The document is the text before the cursor, every character with its
  attributes.
\<close>

fun changeData :: "textWatcher list \<Rightarrow> attributes \<Rightarrow> jsstring \<Rightarrow> instruction list" where
  "changeData [] selectionAttributes text = []"
| "changeData (watcher # watchers) selectionAttributes text =
     (if test watcher text
      then listener watcher selectionAttributes text
             # changeData watchers selectionAttributes text
      else changeData watchers selectionAttributes text)"

type_synonym document = "(jschar \<times> attributes) list"

definition insertContent :: "document \<Rightarrow> instruction \<Rightarrow> document" where
  "insertContent doc i =
     take (length doc - textToReplaceLength i) doc
       @ map (\<lambda>c. (c, textAttributes i)) (textToInsert i)"

definition runPendingChanges :: "instruction list \<Rightarrow> document \<Rightarrow> document" where
  "runPendingChanges pending doc = foldl insertContent doc pending"

text \<open>\<open>TRANSFORMATIONS.name\<close> for an own property of the catalogue.\<close>

definition builtIn :: "string \<Rightarrow> description" where
  "builtIn name = the (map_of TRANSFORMATIONS name)"

section \<open>Notions used to state the properties of the resolution\<close>

text \<open>
  What one entry contributes to the set of defined transformations: the member names of
  the group it names, or the entry itself.
\<close>

definition expandEntry :: "item \<Rightarrow> item list" where
  "expandEntry t =
     (case getProperty TRANSFORMATION_GROUPS (propertyKey t) of
        Own members \<Rightarrow> map Str members
      | Inherited \<Rightarrow> [t]
      | Undefined \<Rightarrow> [t])"

text \<open>An entry whose key finds an inherited property in \<open>TRANSFORMATION_GROUPS\<close>.\<close>

definition inheritedKey :: "item \<Rightarrow> bool" where
  "inheritedKey t \<longleftrightarrow> getProperty TRANSFORMATION_GROUPS (propertyKey t) = Inherited"

text \<open>A sequence without its repetitions, every element at its first occurrence.\<close>

fun firstOccurrences :: "'a list \<Rightarrow> 'a list" where
  "firstOccurrences [] = []"
| "firstOccurrences (x # xs) = x # filter (\<lambda>y. y \<noteq> x) (firstOccurrences xs)"

text \<open>The array \<open>configured\<close> of \<open>getConfiguredTransformations\<close>.\<close>

definition configured :: "config \<Rightarrow> item list" where
  "configured cfg = filter (isNotRemoved cfg) (include' cfg @ extraOf cfg)"

section \<open>Resolution of the configuration\<close>

subsection \<open>The loop and the set of defined transformations\<close>

lemma set_firstOccurrences [simp]: "set (firstOccurrences xs) = set xs"
  by (induction xs) auto

lemma distinct_firstOccurrences [simp]: "distinct (firstOccurrences xs)"
  by (induction xs) auto

lemma foldl_setAdd:
  "foldl (\<lambda>s x. setAdd x s) acc xs = acc @ filter (\<lambda>x. x \<notin> set acc) (firstOccurrences xs)"
proof (induction xs arbitrary: acc)
  case Nil
  then show ?case by simp
next
  case (Cons x xs)
  show ?case
  proof (cases "x \<in> set acc")
    case True
    then have "filter (\<lambda>y. y \<notin> set acc) (filter (\<lambda>y. y \<noteq> x) (firstOccurrences xs))
               = filter (\<lambda>y. y \<notin> set acc) (firstOccurrences xs)"
      by (auto intro: filter_cong)
    with True Cons.IH [of acc] show ?thesis
      by (simp add: setAdd_def)
  next
    case False
    have "filter (\<lambda>y. y \<notin> set (acc @ [x])) (firstOccurrences xs)
          = filter (\<lambda>y. y \<notin> set acc) (filter (\<lambda>y. y \<noteq> x) (firstOccurrences xs))"
      by (auto intro: filter_cong)
    with False Cons.IH [of "acc @ [x]"] show ?thesis
      by (simp add: setAdd_def)
  qed
qed

lemma expandLoop_Inr:
  "expandLoop ts acc = Inr r \<longleftrightarrow>
     (\<forall>t \<in> set ts. \<not> inheritedKey t) \<and>
     r = foldl (\<lambda>s x. setAdd x s) acc (concat (map expandEntry ts))"
proof (induction ts arbitrary: acc)
  case Nil
  then show ?case by auto
next
  case (Cons t ts)
  show ?case
  proof (cases "getProperty TRANSFORMATION_GROUPS (propertyKey t)")
    case (Own members)
    then show ?thesis
      using Cons.IH by (simp add: inheritedKey_def expandEntry_def foldl_map)
  next
    case Inherited
    then show ?thesis by (simp add: inheritedKey_def)
  next
    case Undefined
    then show ?thesis
      using Cons.IH by (simp add: inheritedKey_def expandEntry_def)
  qed
qed

lemma expandLoop_Inl:
  "expandLoop ts acc = Inl e \<longleftrightarrow> (\<exists>t \<in> set ts. inheritedKey t)"
proof (cases "expandLoop ts acc")
  case (Inl a)
  then have "\<not> (\<forall>t \<in> set ts. \<not> inheritedKey t)"
    using expandLoop_Inr [of ts acc] by auto
  with Inl show ?thesis by (cases a; cases e) auto
next
  case (Inr b)
  then show ?thesis using expandLoop_Inr [of ts acc b] by auto
qed

lemma getConfiguredTransformations_Inr:
  "getConfiguredTransformations cfg = Inr ts \<longleftrightarrow>
     (\<forall>t \<in> set (configured cfg). \<not> inheritedKey t) \<and>
     ts = map lookupTransformation
            (filter (isNotRemoved cfg)
               (firstOccurrences (concat (map expandEntry (configured cfg)))))"
proof (cases "expandLoop (configured cfg) []")
  case (Inl e)
  then have "\<exists>t \<in> set (configured cfg). inheritedKey t"
    by (simp add: expandLoop_Inl)
  with Inl show ?thesis
    by (auto simp: getConfiguredTransformations_def expandGroupsAndRemoveDuplicates_def
          configured_def)
next
  case (Inr expanded)
  then have "(\<forall>t \<in> set (configured cfg). \<not> inheritedKey t)
      \<and> expanded = firstOccurrences (concat (map expandEntry (configured cfg)))"
    by (simp add: expandLoop_Inr foldl_setAdd)
  with Inr show ?thesis
    by (auto simp: getConfiguredTransformations_def expandGroupsAndRemoveDuplicates_def
          configured_def)
qed

lemma objectKey_undefined: "getProperty TRANSFORMATIONS ''[object Object]'' = Undefined"
  by (simp add: getProperty_def TRANSFORMATIONS_def objectPrototypeKeys_def)

lemma inj_lookupTransformation: "inj lookupTransformation"
proof (rule injI)
  fix x y assume "lookupTransformation x = lookupTransformation y"
  then show "x = y"
    using objectKey_undefined
    by (cases x; cases y)
       (auto simp: lookupTransformation_def split: property.splits)
qed

lemma lookupTransformation_BuiltIn:
  "lookupTransformation x = BuiltIn name \<longleftrightarrow>
     x = Str name \<and> (\<exists>d. getProperty TRANSFORMATIONS name = Own d)"
proof (cases x)
  case (Str s)
  then show ?thesis
    by (auto simp: lookupTransformation_def split: property.splits)
next
  case (Obj a)
  with objectKey_undefined show ?thesis
    by (simp add: lookupTransformation_def)
qed

lemma lookupTransformation_Passed:
  "lookupTransformation x = Passed y \<longleftrightarrow>
     x = y \<and> getProperty TRANSFORMATIONS (propertyKey y) = Undefined"
  by (auto simp: lookupTransformation_def split: property.splits)

lemma group_members:
  assumes "map_of TRANSFORMATION_GROUPS groupName = Some members" and "member \<in> set members"
  shows "getProperty TRANSFORMATION_GROUPS member = Undefined
         \<and> lookupTransformation (Str member) = BuiltIn member"
proof -
  have all: "\<forall>members \<in> set (map snd TRANSFORMATION_GROUPS). \<forall>member \<in> set members.
          getProperty TRANSFORMATION_GROUPS member = Undefined
          \<and> member \<in> set (map fst TRANSFORMATIONS)"
    by code_simp
  from assms(1) have "members \<in> set (map snd TRANSFORMATION_GROUPS)"
    by (metis map_of_SomeD image_eqI set_map snd_conv)
  with all assms(2) have u: "getProperty TRANSFORMATION_GROUPS member = Undefined"
    and "member \<in> set (map fst TRANSFORMATIONS)" by blast+
  then obtain d where "map_of TRANSFORMATIONS member = Some d"
    by (metis map_of_eq_None_iff not_None_eq set_map)
  then have "lookupTransformation (Str member) = BuiltIn member"
    by (simp add: lookupTransformation_def getProperty_def)
  with u show ?thesis by simp
qed

lemma kept_entry_resolved:
  assumes "getConfiguredTransformations cfg = Inr ts"
    and "x \<in> set (include' cfg @ extraOf cfg)" and "isNotRemoved cfg x"
    and "getProperty TRANSFORMATION_GROUPS (propertyKey x) = Undefined"
  shows "lookupTransformation x \<in> set ts"
proof -
  from assms(2,3) have "x \<in> set (configured cfg)" by (simp add: configured_def)
  moreover from assms(4) have "expandEntry x = [x]" by (simp add: expandEntry_def)
  ultimately have "x \<in> set (concat (map expandEntry (configured cfg)))" by force
  with assms(1,3) show ?thesis
    by (simp add: getConfiguredTransformations_Inr)
qed

subsection \<open>The properties\<close>

text \<open>
  C7. The configuration \<open>include: [ 'mathematical' ]\<close>, without \<open>extra\<close> and
  \<open>remove\<close>, resolves to the built-in transformations \<open>one_half\<close>, \<open>one_third\<close>,
  \<open>two_thirds\<close>, \<open>one_forth\<close>, \<open>three_quarters\<close>, \<open>less_then_or_equal\<close>,
  \<open>greater_then_or_equal\<close>, \<open>not_equal\<close>, \<open>arrow_left\<close>, \<open>arrow_right\<close>, in this
  order and nothing else.
\<close>

theorem mathematical_group_resolution:
  "getConfiguredTransformations
     \<lparr>include' = [Str ''mathematical''], extra = None, remove = None\<rparr>
   = Inr [BuiltIn ''one_half'', BuiltIn ''one_third'', BuiltIn ''two_thirds'',
          BuiltIn ''one_forth'', BuiltIn ''three_quarters'',
          BuiltIn ''less_then_or_equal'', BuiltIn ''greater_then_or_equal'',
          BuiltIn ''not_equal'', BuiltIn ''arrow_left'', BuiltIn ''arrow_right'']"
  by code_simp

text \<open>
  C4. Whenever the resolution returns, nothing that \<open>remove\<close> lists is in the resolved
  array: neither the built-in transformation of that name nor the entry itself, also
  when it was reachable only through a group of \<open>include\<close> or \<open>extra\<close>. The filter
  runs on the entries of \<open>include\<close> and \<open>extra\<close> and once more on the expanded list.
\<close>

theorem removed_never_resolved:
  assumes "getConfiguredTransformations cfg = Inr ts"
    and "x \<in> set (removeOf cfg)"
  shows "lookupTransformation x \<notin> set ts \<and> Passed x \<notin> set ts
         \<and> BuiltIn (propertyKey x) \<notin> set ts
         \<and> (\<exists>expanded.
               expandGroupsAndRemoveDuplicates
                 (filter (isNotRemoved cfg) (include' cfg @ extraOf cfg)) = Inr expanded
               \<and> ts = map lookupTransformation (filter (isNotRemoved cfg) expanded))"
proof -
  from assms(1) have ts: "ts = map lookupTransformation
            (filter (isNotRemoved cfg)
               (firstOccurrences (concat (map expandEntry (configured cfg)))))"
    by (simp add: getConfiguredTransformations_Inr)
  have gone: "lookupTransformation y \<in> set ts \<Longrightarrow> y \<noteq> x" for y
  proof -
    assume "lookupTransformation y \<in> set ts"
    then have "isNotRemoved cfg y"
      unfolding ts using inj_lookupTransformation by (auto dest: injD)
    with assms(2) show "y \<noteq> x" by (auto simp: isNotRemoved_def)
  qed
  have 1: "lookupTransformation x \<notin> set ts" using gone by blast
  have 2: "Passed x \<notin> set ts"
  proof
    assume "Passed x \<in> set ts"
    then obtain y where "lookupTransformation y = Passed x" "lookupTransformation y \<in> set ts"
      unfolding ts by auto
    then show False using gone by (auto simp: lookupTransformation_Passed)
  qed
  have 3: "BuiltIn (propertyKey x) \<notin> set ts"
  proof
    assume "BuiltIn (propertyKey x) \<in> set ts"
    then obtain y where y: "lookupTransformation y = BuiltIn (propertyKey x)"
      "lookupTransformation y \<in> set ts"
      unfolding ts by auto
    then have "y = Str (propertyKey x)" "\<exists>d. getProperty TRANSFORMATIONS (propertyKey x) = Own d"
      by (auto simp: lookupTransformation_BuiltIn)
    with objectKey_undefined have "y = x" by (cases x) auto
    with y(2) gone show False by blast
  qed
  from assms(1) have 4: "\<exists>expanded.
               expandGroupsAndRemoveDuplicates
                 (filter (isNotRemoved cfg) (include' cfg @ extraOf cfg)) = Inr expanded
               \<and> ts = map lookupTransformation (filter (isNotRemoved cfg) expanded)"
    by (auto simp: getConfiguredTransformations_def Let_def split: sum.splits)
  from 1 2 3 4 show ?thesis by blast
qed

theorem removed_never_resolved_witness:
  "getConfiguredTransformations
     \<lparr>include' = [Str ''symbols'', Str ''one_half''], extra = Some [Str ''typography''],
      remove = Some [Str ''trademark'', Str ''typography'', Str ''one_half'']\<rparr>
   = Inr [BuiltIn ''copyright'', BuiltIn ''registered_trademark'']
   \<and> BuiltIn ''trademark'' \<notin> set [BuiltIn ''copyright'', BuiltIn ''registered_trademark'']"
proof -
  let ?cfg = "\<lparr>include' = [Str ''symbols'', Str ''one_half''],
               extra = Some [Str ''typography''],
               remove = Some [Str ''trademark'', Str ''typography'', Str ''one_half'']\<rparr>"
  have r: "getConfiguredTransformations ?cfg
           = Inr [BuiltIn ''copyright'', BuiltIn ''registered_trademark'']"
    by code_simp
  have x: "Str ''trademark'' \<in> set (removeOf ?cfg)"
    by (simp add: removeOf_def)
  from removed_never_resolved [OF r x]
  have "lookupTransformation (Str ''trademark'')
          \<notin> set [BuiltIn ''copyright'', BuiltIn ''registered_trademark'']"
    by (rule conjunct1)
  moreover have "lookupTransformation (Str ''trademark'') = BuiltIn ''trademark''"
    by code_simp
  ultimately have "BuiltIn ''trademark''
          \<notin> set [BuiltIn ''copyright'', BuiltIn ''registered_trademark'']"
    by simp
  with r show ?thesis by (rule conjI)
qed

text \<open>
  C5. Whenever the resolution returns, the resolved array has no two equal elements
  (names are compared as strings, objects by address), and it is, in this order, what
  is left of the first occurrences in the expansion of those entries of \<open>include\<close>
  followed by \<open>extra\<close> that \<open>remove\<close> does not list. The expansion of all the entries
  of \<open>include\<close> followed by \<open>extra\<close> can have another order of first occurrences: a
  removed group is dropped before it is expanded.
\<close>

theorem resolved_distinct_in_order:
  assumes "getConfiguredTransformations cfg = Inr ts"
  shows "distinct ts
         \<and> ts = map lookupTransformation
                  (filter (isNotRemoved cfg)
                     (firstOccurrences
                        (concat (map expandEntry
                           (filter (isNotRemoved cfg) (include' cfg @ extraOf cfg))))))"
  using assms inj_lookupTransformation
  by (auto simp: getConfiguredTransformations_Inr configured_def distinct_map
           intro: inj_on_subset)

theorem resolved_distinct_in_order_witness:
  "getConfiguredTransformations
     \<lparr>include' = [Str ''symbols'', Str ''copyright'', Obj 1], extra = Some [Obj 1, Obj 2],
      remove = Some [Str ''trademark'']\<rparr>
   = Inr [BuiltIn ''copyright'', BuiltIn ''registered_trademark'', Passed (Obj 1),
          Passed (Obj 2)]
   \<and> distinct [BuiltIn ''copyright'', BuiltIn ''registered_trademark'', Passed (Obj 1),
          Passed (Obj 2)]"
proof -
  let ?cfg = "\<lparr>include' = [Str ''symbols'', Str ''copyright'', Obj 1],
               extra = Some [Obj 1, Obj 2], remove = Some [Str ''trademark'']\<rparr>"
  have r: "getConfiguredTransformations ?cfg
           = Inr [BuiltIn ''copyright'', BuiltIn ''registered_trademark'', Passed (Obj 1),
                  Passed (Obj 2)]"
    by code_simp
  from resolved_distinct_in_order [OF r]
  have d: "distinct [BuiltIn ''copyright'', BuiltIn ''registered_trademark'',
                     Passed (Obj 1), Passed (Obj 2)]"
    by (rule conjunct1)
  from r d show ?thesis by (rule conjI)
qed

theorem first_occurrence_order_counterexample:
  "getConfiguredTransformations
     \<lparr>include' = [Str ''symbols'', Str ''trademark'', Str ''copyright''], extra = None,
      remove = Some [Str ''symbols'']\<rparr>
   = Inr [BuiltIn ''trademark'', BuiltIn ''copyright'']
   \<and> firstOccurrences
       (concat (map expandEntry [Str ''symbols'', Str ''trademark'', Str ''copyright'']))
     = [Str ''copyright'', Str ''registered_trademark'', Str ''trademark'']"
  by code_simp

text \<open>
  C8. When none of the entries of \<open>include\<close> and \<open>extra\<close> that \<open>remove\<close> does not
  list names a property inherited from \<open>Object.prototype\<close>, the resolution returns,
  and every such entry that names neither a group nor a built-in transformation is in
  the resolved array as it was given.
\<close>

theorem unknown_entry_passes:
  assumes "\<forall>t \<in> set (include' cfg @ extraOf cfg). isNotRemoved cfg t \<longrightarrow> \<not> inheritedKey t"
  shows "\<exists>ts. getConfiguredTransformations cfg = Inr ts
           \<and> (\<forall>x \<in> set (include' cfg @ extraOf cfg).
                 isNotRemoved cfg x
                 \<and> getProperty TRANSFORMATION_GROUPS (propertyKey x) = Undefined
                 \<and> getProperty TRANSFORMATIONS (propertyKey x) = Undefined
                 \<longrightarrow> Passed x \<in> set ts)"
proof -
  from assms obtain ts where ts: "getConfiguredTransformations cfg = Inr ts"
    by (auto simp: getConfiguredTransformations_Inr configured_def)
  have "Passed x \<in> set ts"
    if "x \<in> set (include' cfg @ extraOf cfg)" "isNotRemoved cfg x"
      "getProperty TRANSFORMATION_GROUPS (propertyKey x) = Undefined"
      "getProperty TRANSFORMATIONS (propertyKey x) = Undefined" for x
    using kept_entry_resolved [OF ts that(1,2,3)] that(4)
    by (simp add: lookupTransformation_def)
  with ts show ?thesis by blast
qed

theorem unknown_entry_passes_witness:
  "getConfiguredTransformations
     \<lparr>include' = [Str ''ellipsis'', Str ''quotes''], extra = Some [Obj 7], remove = None\<rparr>
   = Inr [Passed (Str ''ellipsis''), BuiltIn ''quotes_primary'', BuiltIn ''quotes_secondary'',
          Passed (Obj 7)]"
proof -
  let ?cfg = "\<lparr>include' = [Str ''ellipsis'', Str ''quotes''], extra = Some [Obj 7],
               remove = None\<rparr>"
  have h: "\<forall>t \<in> set (include' ?cfg @ extraOf ?cfg). isNotRemoved ?cfg t \<longrightarrow> \<not> inheritedKey t"
    by code_simp
  from unknown_entry_passes [OF h] obtain ts
    where "getConfiguredTransformations ?cfg = Inr ts" by blast
  moreover have "getConfiguredTransformations ?cfg
     = Inr [Passed (Str ''ellipsis''), BuiltIn ''quotes_primary'',
            BuiltIn ''quotes_secondary'', Passed (Obj 7)]"
    by code_simp
  ultimately show ?thesis by simp
qed

theorem unknown_entry_counterexample:
  "getConfiguredTransformations
     \<lparr>include' = [Str ''ellipsis''], extra = None, remove = Some [Str ''ellipsis'']\<rparr>
   = Inr []
   \<and> getConfiguredTransformations
       \<lparr>include' = [Str ''constructor''], extra = None, remove = None\<rparr>
     = Inl TypeError"
  by code_simp

text \<open>
  C10. A group name in \<open>remove\<close> takes away the reference to the group only: whenever
  the resolution returns, a member of the group whose own name is an entry of
  \<open>include\<close> or \<open>extra\<close> and is not in \<open>remove\<close> is in the resolved array.
\<close>

theorem removed_group_keeps_listed_member:
  assumes "getConfiguredTransformations cfg = Inr ts"
    and "map_of TRANSFORMATION_GROUPS groupName = Some members"
    and "member \<in> set members"
    and "Str member \<in> set (include' cfg @ extraOf cfg)"
    and "Str groupName \<in> set (removeOf cfg)"
    and "Str member \<notin> set (removeOf cfg)"
  shows "BuiltIn member \<in> set ts"
proof -
  note m = group_members [OF assms(2,3)]
  from assms(6) have "isNotRemoved cfg (Str member)" by (simp add: isNotRemoved_def)
  with kept_entry_resolved [OF assms(1,4)] m
  show ?thesis by simp
qed

theorem removed_group_keeps_listed_member_witness:
  "getConfiguredTransformations
     \<lparr>include' = [Str ''mathematical'', Str ''one_half''], extra = None,
      remove = Some [Str ''mathematical'']\<rparr>
   = Inr [BuiltIn ''one_half'']
   \<and> BuiltIn ''one_half'' \<in> set [BuiltIn ''one_half'']"
proof -
  let ?cfg = "\<lparr>include' = [Str ''mathematical'', Str ''one_half''], extra = None,
               remove = Some [Str ''mathematical'']\<rparr>"
  let ?members = "[''one_half'', ''one_third'', ''two_thirds'', ''one_forth'',
         ''three_quarters'', ''less_then_or_equal'', ''greater_then_or_equal'',
         ''not_equal'', ''arrow_left'', ''arrow_right'']"
  have r: "getConfiguredTransformations ?cfg = Inr [BuiltIn ''one_half'']"
    by code_simp
  have g: "map_of TRANSFORMATION_GROUPS ''mathematical'' = Some ?members"
    by code_simp
  have m: "''one_half'' \<in> set ?members" by simp
  have i: "Str ''one_half'' \<in> set (include' ?cfg @ extraOf ?cfg)" by simp
  have x: "Str ''mathematical'' \<in> set (removeOf ?cfg)" by (simp add: removeOf_def)
  have n: "Str ''one_half'' \<notin> set (removeOf ?cfg)" by (simp add: removeOf_def)
  from r removed_group_keeps_listed_member [OF r g m i x n] show ?thesis
    by (rule conjI)
qed

section \<open>The text watchers\<close>

subsection \<open>Delivery of a data change, literal patterns\<close>

lemma changeData_init_Nil: "changeData (init []) attrs text = []"
  by (simp add: init_def)

lemma changeData_init_Cons:
  "changeData (init (t # ts)) attrs text =
     (if testCallback (from' t) text
      then matchedData t attrs text # changeData (init ts) attrs text
      else changeData (init ts) attrs text)"
  by (simp add: init_def)

lemma endsWith_iff: "endsWith text s \<longleftrightarrow> (\<exists>p. text = p @ s)"
proof
  assume "endsWith text s"
  then have "text = take (length text - length s) text @ s"
    by (metis endsWith_def append_take_drop_id)
  then show "\<exists>p. text = p @ s" ..
next
  assume "\<exists>p. text = p @ s"
  then show "endsWith text s" by (auto simp: endsWith_def)
qed

lemma slice_prefix:
  "length s \<le> length text \<Longrightarrow>
     slice text 0 (int (length text) - int (length s)) = take (length text - length s) text"
  by (simp add: slice_def Let_def nat_diff_distrib' min_def)

lemma textReplacer_Literal:
  "textReplacer (Literal s) t (p @ s) = p @ t"
  using slice_prefix [of s "p @ s"] by (simp add: textReplacer_def)

lemma builtIn_copyright:
  "builtIn ''copyright'' = \<lparr>from' = Literal (js ''(c)''), to' = [0x00A9]\<rparr>"
  by (simp add: builtIn_def TRANSFORMATIONS_def)

lemma builtIn_one_half:
  "builtIn ''one_half'' = \<lparr>from' = Literal (js ''1/2''), to' = [0x00BD]\<rparr>"
  by (simp add: builtIn_def TRANSFORMATIONS_def)

lemma builtIn_quotes_primary:
  "builtIn ''quotes_primary''
   = \<lparr>from' = RegExp (buildQuotesRegExp quotation),
      to' = [0x24, 0x31, 0x201C, 0x24, 0x32, 0x201D]\<rparr>"
  by (simp add: builtIn_def TRANSFORMATIONS_def)

lemma builtIn_quotes_primary_pl:
  "builtIn ''quotes_primary_pl''
   = \<lparr>from' = RegExp (buildQuotesRegExp quotation),
      to' = [0x24, 0x31, 0x201E, 0x24, 0x32, 0x201D]\<rparr>"
  by (simp add: builtIn_def TRANSFORMATIONS_def)

lemma quotation_not_space: "\<not> isWhiteSpace quotation"
  by (simp add: isWhiteSpace_def quotation_def)

subsection \<open>The regular expression of the quotation rules\<close>

lemma find_upt_first:
  assumes "k < n" and "P k" and "\<forall>j<k. \<not> P j"
  shows "find P [0 ..< n] = Some k"
  unfolding find_Some_iff using assms
  by (intro exI [of _ k]) simp

lemma find_SomeD: "find P xs = Some x \<Longrightarrow> x \<in> set xs \<and> P x"
  by (induction xs) (auto split: if_splits)

lemma takeWhile_until: "q \<notin> set s \<Longrightarrow> takeWhile (\<lambda>x. x \<noteq> q) (s @ q # r) = s"
  by (induction s) auto

lemma quote_free_unique:
  assumes "xs @ q # s @ [q] = ys @ q # t @ [q]" and "q \<notin> set s" and "q \<notin> set t"
  shows "xs = ys \<and> s = t"
proof -
  from assms(1) have o: "xs @ q # s = ys @ q # t" by simp
  have e: "rev s @ q # rev xs = rev t @ q # rev ys"
  proof -
    have "rev s @ q # rev xs = rev (xs @ q # s)" by simp
    also have "\<dots> = rev (ys @ q # t)" using o by (rule arg_cong)
    also have "\<dots> = rev t @ q # rev ys" by simp
    finally show ?thesis .
  qed
  have "takeWhile (\<lambda>x. x \<noteq> q) (rev s @ q # rev xs) = rev s"
    using assms(2) by (simp add: takeWhile_until)
  moreover have "takeWhile (\<lambda>x. x \<noteq> q) (rev t @ q # rev ys) = rev t"
    using assms(3) by (simp add: takeWhile_until)
  ultimately have "rev s = rev t" using e by simp
  with e show ?thesis by simp
qed

lemma quotedSpan_Some_iff:
  "quotedSpan q rest = Some s \<longleftrightarrow> rest = q # s @ [q] \<and> s \<noteq> [] \<and> q \<notin> set s"
proof
  assume a: "quotedSpan q rest = Some s"
  then obtain cs where rest: "rest = q # cs"
    by (auto simp: quotedSpan_def split: list.splits if_splits)
  let ?L = "length (takeWhile (\<lambda>x. x \<noteq> q) cs)"
  from a rest obtain k where
    f: "find (\<lambda>k. drop k cs = [q]) (rev [1 ..< Suc ?L]) = Some k" and s: "s = take k cs"
    by (auto simp: quotedSpan_def split: option.splits)
  from find_SomeD [OF f] have "k \<in> set (rev [1 ..< Suc ?L])" and d: "drop k cs = [q]"
    by blast+
  then have k: "1 \<le> k" "k \<le> ?L" by auto
  from d have cs: "cs = s @ [q]" using s by (metis append_take_drop_id)
  have "take k (take ?L cs) = take k cs"
    using k(2) by (simp add: min_def)
  moreover have "take ?L cs = takeWhile (\<lambda>x. x \<noteq> q) cs"
    by (rule takeWhile_eq_take [symmetric])
  ultimately have "s = take k (takeWhile (\<lambda>x. x \<noteq> q) cs)"
    using s by simp
  then have "set s \<subseteq> set (takeWhile (\<lambda>x. x \<noteq> q) cs)"
    by (simp add: set_take_subset)
  then have nq: "q \<notin> set s" by (auto dest: set_takeWhileD)
  have "length (drop k cs) = length [q]" using d by (rule arg_cong)
  then have "length cs = Suc k" by simp
  with k(1) s have "s \<noteq> []" by auto
  with rest cs nq show "rest = q # s @ [q] \<and> s \<noteq> [] \<and> q \<notin> set s" by simp
next
  assume a: "rest = q # s @ [q] \<and> s \<noteq> [] \<and> q \<notin> set s"
  then have tw: "takeWhile (\<lambda>x. x \<noteq> q) (s @ [q]) = s"
    by (simp add: takeWhile_until)
  from a have l: "1 \<le> length s" by (cases s) auto
  then have "rev [1 ..< Suc (length s)] = length s # rev [1 ..< length s]"
    by simp
  then have "find (\<lambda>k. drop k (s @ [q]) = [q]) (rev [1 ..< Suc (length s)]) = Some (length s)"
    by simp
  with a tw l show "quotedSpan q rest = Some s"
    by (simp add: quotedSpan_def)
qed

lemma matchAt_SomeD:
  assumes "matchAt q text i \<noteq> None"
  shows "\<exists>s. s \<noteq> [] \<and> q \<notin> set s
           \<and> (i = 0 \<and> text = q # s @ [q]
               \<or> i < length text \<and> drop (Suc i) text = q # s @ [q])"
  using assms
  by (auto simp: matchAt_def quotedSpan_Some_iff split: option.splits if_splits)

lemma matchAt_start:
  assumes "span \<noteq> []" and "q \<notin> set span"
  shows "matchAt q (q # span @ [q]) 0 = Some ([], span)"
proof -
  from assms have "quotedSpan q (q # span @ [q]) = Some span"
    by (simp add: quotedSpan_Some_iff)
  then show ?thesis by (simp add: matchAt_def)
qed

lemma matchAt_space:
  assumes "span \<noteq> []" and "q \<notin> set span" and "isWhiteSpace w" and "\<not> isWhiteSpace q"
  shows "matchAt q (pre @ w # q # span @ [q]) (length pre) = Some ([w], span)"
proof -
  let ?text = "pre @ w # q # span @ [q]"
  from assms(3,4) have wq: "w \<noteq> q" by auto
  have first: "(if length pre = 0 then quotedSpan q (drop (length pre) ?text) else None) = None"
    using wq by (auto simp: quotedSpan_def)
  from assms(1,2) have "quotedSpan q (q # span @ [q]) = Some span"
    by (simp add: quotedSpan_Some_iff)
  with first assms(3) show ?thesis
    by (simp add: matchAt_def)
qed

lemma matchAt_before:
  assumes "q \<notin> set span" and "i < length pre"
    and "b = [] \<longrightarrow> pre = []" and "length b \<le> 1"
  shows "matchAt q (pre @ b @ q # span @ [q]) i = None"
proof (rule ccontr)
  let ?text = "pre @ b @ q # span @ [q]"
  assume "matchAt q ?text i \<noteq> None"
  from matchAt_SomeD [OF this] obtain s where s: "q \<notin> set s"
    and c: "i = 0 \<and> ?text = q # s @ [q]
            \<or> i < length ?text \<and> drop (Suc i) ?text = q # s @ [q]"
    by blast
  from c show False
  proof
    assume "i = 0 \<and> ?text = q # s @ [q]"
    then have "(pre @ b) @ q # span @ [q] = [] @ q # s @ [q]" by simp
    from quote_free_unique [OF this assms(1) s] assms(2) show False by simp
  next
    assume a: "i < length ?text \<and> drop (Suc i) ?text = q # s @ [q]"
    then have "?text = take (Suc i) ?text @ q # s @ [q]"
      by (metis append_take_drop_id)
    then have "(pre @ b) @ q # span @ [q] = take (Suc i) ?text @ q # s @ [q]" by simp
    from quote_free_unique [OF this assms(1) s]
    have "pre @ b = take (Suc i) ?text" by simp
    then have "length (pre @ b) = length (take (Suc i) ?text)" by simp
    with a have "length pre + length b = Suc i" by simp
    with assms(2,3) show False by (cases b) auto
  qed
qed

lemma buildQuotesRegExp_match:
  assumes "span \<noteq> []" and "q \<notin> set span" and "\<not> isWhiteSpace q"
    and "(pre = [] \<and> b = []) \<or> (\<exists>w. isWhiteSpace w \<and> b = [w])"
  shows "buildQuotesRegExp q (pre @ b @ [q] @ span @ [q])
         = Some \<lparr>index = length pre, matched = b @ [q] @ span @ [q],
                 captures = [Some b, Some span]\<rparr>"
proof -
  let ?text = "pre @ b @ [q] @ span @ [q]"
  have here: "matchAt q ?text (length pre) = Some (b, span)"
    using assms(4) matchAt_start [OF assms(1,2)] matchAt_space [OF assms(1,2) _ assms(3)]
    by auto
  have before: "\<forall>j<length pre. \<not> matchAt q ?text j \<noteq> None"
    using assms(4) matchAt_before [OF assms(2), of _ pre b] by auto
  have "find (\<lambda>i. matchAt q ?text i \<noteq> None) [0 ..< Suc (length ?text)] = Some (length pre)"
    by (rule find_upt_first) (use here before in auto)
  with here show ?thesis
    by (simp add: buildQuotesRegExp_def)
qed

lemma quotes_template:
  assumes "l \<noteq> 0x24" and "\<not> isDigit l" and "\<not> isDigit r"
  shows "getSubstitution m s p [Some b, Some span] [0x24, 0x31, l, 0x24, 0x32, r]
         = b @ [l] @ span @ [r]"
  using assms by (simp add: isDigit_def digitVal_def capture_def)

lemma quotes_rule_emits:
  assumes "span \<noteq> []" and "quotation \<notin> set span"
    and "(pre = [] \<and> b = []) \<or> (\<exists>w. isWhiteSpace w \<and> b = [w])"
    and "l \<noteq> 0x24" and "\<not> isDigit l" and "\<not> isDigit r"
  shows "changeData
           (init [\<lparr>from' = RegExp (buildQuotesRegExp quotation),
                   to' = [0x24, 0x31, l, 0x24, 0x32, r]\<rparr>])
           attrs (pre @ b @ [quotation] @ span @ [quotation])
         = [\<lparr>textToReplaceLength = length (pre @ b @ [quotation] @ span @ [quotation]),
             textToInsert = pre @ b @ [l] @ span @ [r],
             textAttributes = attrs\<rparr>]"
proof -
  note m = buildQuotesRegExp_match [OF assms(1,2) quotation_not_space assms(3), simplified]
  show ?thesis
    by (simp add: changeData_init_Cons changeData_init_Nil testCallback_def matchedData_def
          textReplacer_def replace_def m quotes_template [OF assms(4,5,6)]
          del: getSubstitution.simps)
qed

subsection \<open>The properties\<close>

text \<open>
  C1. Every transformation has a watcher of its own, and a data change is tested by all
  of them: each rule that matches the text before the cursor computes its replacement
  and enqueues its replace instruction, in the order of the rules. The instruction of
  the first matching rule comes first; the later matching rules follow, none is
  skipped.
\<close>

theorem every_matching_rule_emits:
  "changeData (init rules) attrs text
   = map (\<lambda>r. matchedData r attrs text) (filter (\<lambda>r. testCallback (from' r) text) rules)"
proof (induction rules)
  case Nil
  show ?case by (simp add: changeData_init_Nil)
next
  case (Cons r rules)
  then show ?case by (simp add: changeData_init_Cons)
qed

theorem first_match_wins_counterexample:
  "getConfiguredTransformations
     \<lparr>include' = [Str ''quotes_primary'', Str ''quotes_primary_pl''], extra = None,
      remove = None\<rparr>
     = Inr [BuiltIn ''quotes_primary'', BuiltIn ''quotes_primary_pl'']
   \<and> map (descriptionOf Map.empty) [BuiltIn ''quotes_primary'', BuiltIn ''quotes_primary_pl'']
     = [Some (builtIn ''quotes_primary''), Some (builtIn ''quotes_primary_pl'')]
   \<and> changeData (init [builtIn ''quotes_primary'', builtIn ''quotes_primary_pl'']) []
       (js ''\"a\"'')
     = [\<lparr>textToReplaceLength = 3, textToInsert = [0x201C, 0x61, 0x201D],
          textAttributes = []\<rparr>,
        \<lparr>textToReplaceLength = 3, textToInsert = [0x201E, 0x61, 0x201D],
          textAttributes = []\<rparr>]"
proof -
  have o: "map (descriptionOf Map.empty)
             [BuiltIn ''quotes_primary'', BuiltIn ''quotes_primary_pl'']
           = [Some (builtIn ''quotes_primary''), Some (builtIn ''quotes_primary_pl'')]"
    by (simp add: builtIn_def TRANSFORMATIONS_def)
  have r: "getConfiguredTransformations
     \<lparr>include' = [Str ''quotes_primary'', Str ''quotes_primary_pl''], extra = None,
      remove = None\<rparr>
     = Inr [BuiltIn ''quotes_primary'', BuiltIn ''quotes_primary_pl'']"
    by code_simp
  have 1: "[0x61 :: jschar] \<noteq> []" by simp
  have 2: "quotation \<notin> set [0x61 :: jschar]" by (simp add: quotation_def)
  have 3: "(([] :: jsstring) = [] \<and> ([] :: jsstring) = [])
           \<or> (\<exists>w. isWhiteSpace w \<and> ([] :: jsstring) = [w])"
    by simp
  have t: "js ''\"a\"'' = [] @ [] @ [quotation] @ [0x61] @ [quotation]"
    by (simp add: js_def quotation_def)
  note m = buildQuotesRegExp_match [OF 1 2 quotation_not_space 3, simplified]
  have d: "\<not> isDigit 0x201C" "\<not> isDigit 0x201D" "\<not> isDigit 0x201E"
    "(0x201C :: jschar) \<noteq> 0x24" "(0x201E :: jschar) \<noteq> 0x24"
    by (simp_all add: isDigit_def)
  have "changeData (init [builtIn ''quotes_primary'', builtIn ''quotes_primary_pl'']) []
       (js ''\"a\"'')
     = [\<lparr>textToReplaceLength = 3, textToInsert = [0x201C, 0x61, 0x201D],
          textAttributes = []\<rparr>,
        \<lparr>textToReplaceLength = 3, textToInsert = [0x201E, 0x61, 0x201D],
          textAttributes = []\<rparr>]"
    unfolding t
    by (simp add: changeData_init_Cons changeData_init_Nil builtIn_quotes_primary
          builtIn_quotes_primary_pl testCallback_def matchedData_def textReplacer_def
          replace_def m quotes_template d
          del: getSubstitution.simps)
  with r o show ?thesis by (intro conjI)
qed

text \<open>
  C2. A rule that matches the text before the cursor enqueues exactly one replace
  instruction. It replaces as many characters before the cursor as the whole probe text
  has, by the probe text in which the match is replaced: for a literal pattern the text
  without its suffix \<open>from\<close>, followed by \<open>to\<close>; for a regular expression the text
  before the match, the expanded template and the text after the match. The inserted
  text carries the attributes of the selection.
\<close>

theorem matching_rule_replaces_probe_text:
  assumes "testCallback (from' r) text"
  shows "changeData (init [r]) attrs text = [matchedData r attrs text]
     \<and> textToReplaceLength (matchedData r attrs text) = length text
     \<and> textAttributes (matchedData r attrs text) = attrs
     \<and> (\<forall>s. from' r = Literal s \<longrightarrow>
            text = take (length text - length s) text @ s
            \<and> textToInsert (matchedData r attrs text)
                = take (length text - length s) text @ to' r)
     \<and> (\<forall>re. from' r = RegExp re \<longrightarrow>
            (\<exists>m. re text = Some m
               \<and> textToInsert (matchedData r attrs text)
                   = take (index m) text
                       @ getSubstitution (matched m) text (index m) (captures m) (to' r)
                       @ drop (index m + length (matched m)) text))"
proof -
  have 1: "changeData (init [r]) attrs text = [matchedData r attrs text]"
    using assms by (simp add: changeData_init_Cons changeData_init_Nil)
  have 2: "textToReplaceLength (matchedData r attrs text) = length text"
    "textAttributes (matchedData r attrs text) = attrs"
    by (simp_all add: matchedData_def)
  have 3: "text = take (length text - length s) text @ s
            \<and> textToInsert (matchedData r attrs text)
                = take (length text - length s) text @ to' r"
    if "from' r = Literal s" for s
  proof -
    from assms that have e: "endsWith text s" by (simp add: testCallback_def)
    then have "text = take (length text - length s) text @ s"
      by (metis endsWith_def append_take_drop_id)
    moreover from e have "length s \<le> length text" by (simp add: endsWith_def)
    ultimately show ?thesis
      using that by (simp add: matchedData_def textReplacer_def slice_prefix)
  qed
  have 4: "\<exists>m. re text = Some m
               \<and> textToInsert (matchedData r attrs text)
                   = take (index m) text
                       @ getSubstitution (matched m) text (index m) (captures m) (to' r)
                       @ drop (index m + length (matched m)) text"
    if "from' r = RegExp re" for re
  proof -
    from assms that obtain m where "re text = Some m"
      by (auto simp: testCallback_def)
    with that show ?thesis
      by (simp add: matchedData_def textReplacer_def replace_def)
  qed
  from 1 2 3 4 show ?thesis by blast
qed

theorem matching_rule_replaces_probe_text_witness:
  "testCallback (from' (builtIn ''one_half'')) (js ''x1/2'')
   \<and> textToReplaceLength (matchedData (builtIn ''one_half'') [] (js ''x1/2'')) = 4
   \<and> textToInsert (matchedData (builtIn ''one_half'') [] (js ''x1/2'')) = [0x78, 0x00BD]
   \<and> testCallback (from' (builtIn ''quotes_primary'')) (js ''He said \"hello\"'')
   \<and> textToReplaceLength (matchedData (builtIn ''quotes_primary'') []
         (js ''He said \"hello\"'')) = 15
   \<and> textToInsert (matchedData (builtIn ''quotes_primary'') [] (js ''He said \"hello\"''))
       = js ''He said '' @ [0x201C] @ js ''hello'' @ [0x201D]"
proof -
  let ?half = "builtIn ''one_half''" and ?quotes = "builtIn ''quotes_primary''"
  let ?text = "js ''He said \"hello\"''"
  have h1: "testCallback (from' ?half) (js ''x1/2'')"
    by (simp add: builtIn_one_half testCallback_def endsWith_def js_def)
  have f1: "from' ?half = Literal (js ''1/2'')"
    by (simp add: builtIn_one_half)
  note t1 = matching_rule_replaces_probe_text [OF h1, of "[]"]
  from t1 have l1: "textToReplaceLength (matchedData ?half [] (js ''x1/2''))
                    = length (js ''x1/2'')"
    by blast
  from t1 f1 have "textToInsert (matchedData ?half [] (js ''x1/2''))
      = take (length (js ''x1/2'') - length (js ''1/2'')) (js ''x1/2'') @ to' ?half"
    by blast
  then have i1: "textToInsert (matchedData ?half [] (js ''x1/2'')) = [0x78, 0x00BD]"
    by (simp add: builtIn_one_half js_def)
  have 1: "js ''hello'' \<noteq> []" by (simp add: js_def)
  have 2: "quotation \<notin> set (js ''hello'')" by (simp add: js_def quotation_def)
  have 3: "(js ''He said'' = [] \<and> js '' '' = []) \<or> (\<exists>w. isWhiteSpace w \<and> js '' '' = [w])"
    by (simp add: js_def isWhiteSpace_def)
  have t: "js ''He said'' @ js '' '' @ [quotation] @ js ''hello'' @ [quotation] = ?text"
    by (simp add: js_def quotation_def)
  note m = buildQuotesRegExp_match [OF 1 2 quotation_not_space 3, unfolded t]
  have h2: "testCallback (from' ?quotes) ?text"
    by (simp add: builtIn_quotes_primary testCallback_def m)
  have f2: "from' ?quotes = RegExp (buildQuotesRegExp quotation)"
    by (simp add: builtIn_quotes_primary)
  note t2 = matching_rule_replaces_probe_text [OF h2, of "[]"]
  from t2 have l2: "textToReplaceLength (matchedData ?quotes [] ?text) = length ?text"
    by blast
  from t2 f2 obtain mm where mm: "buildQuotesRegExp quotation ?text = Some mm"
    and ins: "textToInsert (matchedData ?quotes [] ?text)
      = take (index mm) ?text
          @ getSubstitution (matched mm) ?text (index mm) (captures mm) (to' ?quotes)
          @ drop (index mm + length (matched mm)) ?text"
    by blast
  from mm m have "mm = \<lparr>index = length (js ''He said''),
      matched = js '' '' @ [quotation] @ js ''hello'' @ [quotation],
      captures = [Some (js '' ''), Some (js ''hello'')]\<rparr>"
    by simp
  with ins have i2: "textToInsert (matchedData ?quotes [] ?text)
       = js ''He said '' @ [0x201C] @ js ''hello'' @ [0x201D]"
    by (simp add: builtIn_quotes_primary js_def isDigit_def digitVal_def capture_def)
  from h1 l1 i1 h2 l2 i2 show ?thesis by (simp add: js_def)
qed

theorem replace_length_counterexample:
  "testCallback (from' (builtIn ''one_half'')) (js ''x1/2'')
   \<and> from' (builtIn ''one_half'') = Literal (js ''1/2'')
   \<and> length (js ''1/2'') = 3
   \<and> changeData (init [builtIn ''one_half'']) [] (js ''x1/2'')
     = [\<lparr>textToReplaceLength = 4, textToInsert = [0x78, 0x00BD], textAttributes = []\<rparr>]"
  by (simp add: builtIn_one_half testCallback_def endsWith_def js_def changeData_init_Cons
        changeData_init_Nil matchedData_def textReplacer_def slice_def)

text \<open>
  C3. The rule \<open>quotes_primary\<close> on a text that ends in a span between straight double
  quotes, the span not empty and without a double quote, the opening quote at the start
  of the text or after a white space character: the match is the boundary, the quotes
  and the span, with the boundary and the span as captures, and the text inserted is
  the probe text up to and including the boundary, followed by the span between the
  directional quotes.
\<close>

theorem quotes_primary_pairing:
  assumes "span \<noteq> []" and "quotation \<notin> set span"
    and "(pre = [] \<and> b = []) \<or> (\<exists>w. isWhiteSpace w \<and> b = [w])"
  shows "buildQuotesRegExp quotation (pre @ b @ [quotation] @ span @ [quotation])
         = Some \<lparr>index = length pre, matched = b @ [quotation] @ span @ [quotation],
                 captures = [Some b, Some span]\<rparr>
     \<and> changeData (init [builtIn ''quotes_primary'']) attrs
         (pre @ b @ [quotation] @ span @ [quotation])
       = [\<lparr>textToReplaceLength = length (pre @ b @ [quotation] @ span @ [quotation]),
           textToInsert = pre @ b @ [0x201C] @ span @ [0x201D],
           textAttributes = attrs\<rparr>]"
proof -
  have "(0x201C :: jschar) \<noteq> 0x24" "\<not> isDigit 0x201C" "\<not> isDigit 0x201D"
    by (simp_all add: isDigit_def)
  from quotes_rule_emits [OF assms this, of attrs]
    buildQuotesRegExp_match [OF assms(1,2) quotation_not_space assms(3)]
  show ?thesis by (simp only: builtIn_quotes_primary)
qed

theorem quotes_primary_pairing_witness:
  "buildQuotesRegExp quotation (js ''He said \"hello\"'')
     = Some \<lparr>index = 7, matched = js '' \"hello\"'',
             captures = [Some (js '' ''), Some (js ''hello'')]\<rparr>
   \<and> changeData (init [builtIn ''quotes_primary'']) [] (js ''He said \"hello\"'')
     = [\<lparr>textToReplaceLength = 15,
         textToInsert = js ''He said '' @ [0x201C] @ js ''hello'' @ [0x201D],
         textAttributes = []\<rparr>]"
proof -
  have 1: "js ''hello'' \<noteq> []" by (simp add: js_def)
  have 2: "quotation \<notin> set (js ''hello'')" by (simp add: js_def quotation_def)
  have 3: "(js ''He said'' = [] \<and> js '' '' = []) \<or> (\<exists>w. isWhiteSpace w \<and> js '' '' = [w])"
    by (simp add: js_def isWhiteSpace_def)
  have t: "js ''He said'' @ js '' '' @ [quotation] @ js ''hello'' @ [quotation]
           = js ''He said \"hello\"''"
    by (simp add: js_def quotation_def)
  from quotes_primary_pairing [OF 1 2 3, of "[]"] show ?thesis
    unfolding t by (simp add: js_def quotation_def)
qed

text \<open>
  C6. A literal pattern matches a text exactly when the text ends with it. For the rule
  \<open>copyright\<close>, a text \<open>p\<close> followed by \<open>(c)\<close> gives one replace instruction: the
  whole probe text, \<open>length p + 3\<close> characters, is replaced by \<open>p\<close> followed by the
  copyright sign, so that the three characters \<open>(c)\<close> become the sign. A text that
  ends in \<open>(c)\<close> and a space gives no instruction.
\<close>

theorem literal_rule_matches_suffix:
  "(testCallback (Literal s) text \<longleftrightarrow> (\<exists>p. text = p @ s))
   \<and> changeData (init [builtIn ''copyright'']) attrs (p @ js ''(c)'')
       = [\<lparr>textToReplaceLength = length p + 3, textToInsert = p @ [0x00A9],
           textAttributes = attrs\<rparr>]
   \<and> changeData (init [builtIn ''copyright'']) attrs (p @ js ''(c) '') = []"
proof -
  have 1: "testCallback (Literal s) text \<longleftrightarrow> (\<exists>p. text = p @ s)"
    by (simp add: testCallback_def endsWith_iff)
  have "endsWith (p @ js ''(c)'') (js ''(c)'')"
    by (simp add: endsWith_iff)
  then have 2: "changeData (init [builtIn ''copyright'']) attrs (p @ js ''(c)'')
       = [\<lparr>textToReplaceLength = length p + 3, textToInsert = p @ [0x00A9],
           textAttributes = attrs\<rparr>]"
    by (simp add: changeData_init_Cons changeData_init_Nil builtIn_copyright
          testCallback_def matchedData_def textReplacer_Literal)
       (simp add: js_def)
  have "\<not> endsWith (p @ js ''(c) '') (js ''(c)'')"
    by (simp add: endsWith_def js_def)
  then have 3: "changeData (init [builtIn ''copyright'']) attrs (p @ js ''(c) '') = []"
    by (simp add: changeData_init_Cons changeData_init_Nil builtIn_copyright
          testCallback_def)
  from 1 2 3 show ?thesis by blast
qed

theorem copyright_replace_counterexample:
  "endsWith (js ''a(c)'') (js ''(c)'')
   \<and> changeData (init [builtIn ''copyright'']) [] (js ''a(c)'')
     = [\<lparr>textToReplaceLength = 4, textToInsert = [0x61, 0x00A9], textAttributes = []\<rparr>]"
  by (simp add: builtIn_copyright testCallback_def endsWith_def js_def changeData_init_Cons
        changeData_init_Nil matchedData_def textReplacer_def slice_def)

text \<open>
  C9. When no rule matches the text before the cursor, the data change enqueues no
  replace instruction, and running the pending changes leaves the document as it was.
\<close>

theorem no_match_no_change:
  assumes "\<forall>r \<in> set rules. \<not> testCallback (from' r) text"
  shows "changeData (init rules) attrs text = []
         \<and> runPendingChanges (changeData (init rules) attrs text) doc = doc"
proof -
  from assms have "changeData (init rules) attrs text = []"
  proof (induction rules)
    case Nil
    show ?case by (rule changeData_init_Nil)
  next
    case (Cons r rules)
    then show ?case by (simp add: changeData_init_Cons)
  qed
  then show ?thesis by (simp add: runPendingChanges_def)
qed

theorem no_match_no_change_witness:
  "changeData (init [builtIn ''copyright'', builtIn ''one_half'']) [] (js ''abc'') = []
   \<and> runPendingChanges
       (changeData (init [builtIn ''copyright'', builtIn ''one_half'']) [] (js ''abc''))
       [(0x61, []), (0x62, []), (0x63, [])]
     = [(0x61, []), (0x62, []), (0x63, [])]"
proof -
  have "\<forall>r \<in> set [builtIn ''copyright'', builtIn ''one_half''].
          \<not> testCallback (from' r) (js ''abc'')"
    by (simp add: builtIn_copyright builtIn_one_half testCallback_def endsWith_def js_def)
  from no_match_no_change [OF this] show ?thesis .
qed

end
